theory Spec2Isabelle
  imports Complex_Main
begin

section \<open>The EV battery value federate (EVBatteryValueFed.py)\<close>

text \<open>
  The federate keeps one state of charge per battery, reads a charging voltage per battery
  at every granted time, looks the effective resistance up in an empirical table, and
  publishes the charging current. Python floats are modelled as real numbers: the
  arithmetic below is exact, and a float that leaves the reals (a division by zero gives
  inf or NaN in numpy) is an explicit outcome of the model.
\<close>

subsection \<open>Values and exceptions\<close>

text \<open>The Python exceptions that the lines of the main block can raise.\<close>

datatype error = ValueError | KeyError | NameError

text \<open>
  Why a run of the model stops before its loop ends: an exception propagates (nothing in
  the file catches one), or a float became inf or NaN, which the reals cannot hold.
\<close>

datatype halt = Raise error | NonFinite

text \<open>
  A numeric Python value as numpy sees it: a scalar (a float, 0-dimensional) or a
  1-dimensional array.
\<close>

datatype npval = Scalar real | Array "real list"

fun np_elems :: "npval \<Rightarrow> real list" where
  "np_elems (Scalar a) = [a]"
| "np_elems (Array as) = as"

fun np_map :: "(real \<Rightarrow> real) \<Rightarrow> npval \<Rightarrow> npval" where
  "np_map f (Scalar a) = Scalar (f a)"
| "np_map f (Array as) = Array (map f as)"

text \<open>
  Addition with numpy's broadcasting: a scalar or an array of length 1 is stretched over
  the other operand, two arrays of different lengths (neither of length 1) raise
  ValueError.
\<close>

fun np_add :: "npval \<Rightarrow> npval \<Rightarrow> error + npval" where
  "np_add (Scalar a) (Scalar b) = Inr (Scalar (a + b))"
| "np_add (Scalar a) (Array bs) = Inr (Array (map (\<lambda>b. a + b) bs))"
| "np_add (Array as) (Scalar b) = Inr (Array (map (\<lambda>a. a + b) as))"
| "np_add (Array as) (Array bs) =
     (if length as = length bs then Inr (Array (map (\<lambda>(a, b). a + b) (zip as bs)))
      else if length as = 1 then Inr (Array (map (\<lambda>b. hd as + b) bs))
      else if length bs = 1 then Inr (Array (map (\<lambda>a. a + hd bs) as))
      else Inl ValueError)"

subsection \<open>numpy.interp\<close>

text \<open>
  \<open>np.interp(x, xp, fp)\<close> evaluates at \<open>x\<close> the piecewise linear interpolant through the
  points \<open>(xp[i], fp[i])\<close>. numpy searches the interval \<open>xp[j] \<le> x < xp[j+1]\<close> by bisection
  and does not check that \<open>xp\<close> increases; the scan below finds the same \<open>j\<close> whenever
  \<open>xp\<close> is sorted. At the last node and beyond it the result is the last value, before the
  first node it is the first value.
\<close>

fun interp_from :: "real \<Rightarrow> real list \<Rightarrow> real list \<Rightarrow> real" where
  "interp_from x (x0 # x1 # xs) (y0 # y1 # ys) =
     (if x < x1 then (if x = x0 then y0 else (y1 - y0) / (x1 - x0) * (x - x0) + y0)
      else interp_from x (x1 # xs) (y1 # ys))"
| "interp_from x xs (y0 # ys) = y0"
| "interp_from x xs [] = 0"

definition interp1 :: "real \<Rightarrow> real list \<Rightarrow> real list \<Rightarrow> real" where
  "interp1 x xp fp =
     (if x > last xp then last fp
      else if x < hd xp then hd fp
      else interp_from x xp fp)"

text \<open>
  The argument checks of numpy's \<open>interp\<close> (\<open>arr_interp\<close> in numpy's
  \<open>compiled_base.c\<close>): \<open>fp\<close> and \<open>xp\<close> are converted to arrays of exactly one
  dimension, so a scalar in either place raises ValueError (``object of too small depth
  for desired array''), as do an empty \<open>xp\<close> (``array of sample points is empty'') and an
  \<open>fp\<close> whose length differs from that of \<open>xp\<close> (``fp and xp are not of the same
  length''). The query \<open>x\<close> may have any shape, and the result has the shape of \<open>x\<close>.
\<close>

fun np_interp :: "npval \<Rightarrow> npval \<Rightarrow> npval \<Rightarrow> error + npval" where
  "np_interp x (Array xp) (Array fp) =
     (if xp = [] then Inl ValueError
      else if length fp \<noteq> length xp then Inl ValueError
      else Inr (np_map (\<lambda>v. interp1 v xp fp) x))"
| "np_interp x xp fp = Inl ValueError"

subsection \<open>The empirical table\<close>

definition socs :: "real list" where
  "socs = [0, 0.0667, 0.1333, 0.2, 0.2667, 0.3333, 0.4, 0.4667, 0.5333,
           0.6, 0.6667, 0.7333, 0.8, 0.8667, 0.9333, 1]"

definition effective_R :: "real list" where
  "effective_R = [2, 2.2222, 2.4444, 2.6667, 2.6815, 2.6963, 2.7111,
                  2.7259, 2.7407, 2.7556, 2.7704, 2.7852, 2.8, 3.8182,
                  6, 21]"

definition batt_cell_series :: real where
  "batt_cell_series = 96"

definition update_interval :: real where
  "update_interval = 60"

definition total_interval :: real where
  "total_interval = 60 * 60 * (24 * 7)"

subsection \<open>The collaborators: configuration, scheduler, inputs, random numbers\<close>

text \<open>
  What the federate takes from outside: the numbers of subscriptions and publications of
  the configuration, the value that \<open>helicsInputGetDouble\<close> returns at the \<open>k\<close>-th time
  request for subscription \<open>j\<close>, the time that the \<open>k\<close>-th \<open>helicsFederateRequestTime\<close>
  grants for a requested time, and for every seed the stream of numbers that numpy's
  generator then produces.
\<close>

record env =
  sub_count :: nat
  pub_count :: nat
  input_double :: "nat \<Rightarrow> nat \<Rightarrow> real"
  request_time :: "nat \<Rightarrow> real \<Rightarrow> real"
  random_stream :: "nat \<Rightarrow> nat \<Rightarrow> nat"

text \<open>
  \<open>np.random.randint(low, high)\<close> returns an integer in \<open>[low, high)\<close>; the \<open>n\<close>-th draw
  reduces the \<open>n\<close>-th number of the stream to that range.
\<close>

definition randint :: "(nat \<Rightarrow> nat) \<Rightarrow> nat \<Rightarrow> nat \<Rightarrow> nat \<Rightarrow> nat" where
  "randint rng n low high = low + rng n mod (high - low)"

subsection \<open>The state of the main block\<close>

text \<open>
  The two module-level arrays, the position of the global random generator, the
  dictionary \<open>current_soc\<close>, the variable \<open>charging_current\<close> (unbound until its first
  assignment), the values handed to the publications, and the two data collection lists.
\<close>

record state =
  socs_arr :: "real list"
  effective_R_arr :: "real list"
  rng_pos :: nat
  current_soc :: "nat \<rightharpoonup> npval"
  charging_current :: "npval option"
  published :: "(nat \<times> npval) list"
  time_sim :: "real list"
  current :: "npval list"

definition initial_state :: state where
  "initial_state =
     \<lparr>socs_arr = socs, effective_R_arr = effective_R, rng_pos = 0,
      current_soc = Map.empty, charging_current = None, published = [],
      time_sim = [], current = []\<rparr>"

text \<open>\<open>current_soc[i] = (np.random.randint(0,80))/100\<close>\<close>

definition draw_soc :: "(nat \<Rightarrow> nat) \<Rightarrow> state \<Rightarrow> real" where
  "draw_soc rng s = real (randint rng (rng_pos s) 0 80) / 100"

definition assign_draw :: "(nat \<Rightarrow> nat) \<Rightarrow> nat \<Rightarrow> state \<Rightarrow> state" where
  "assign_draw rng i s =
     s\<lparr>current_soc := (current_soc s)(i \<mapsto> Scalar (draw_soc rng s)),
       rng_pos := Suc (rng_pos s)\<rparr>"

text \<open>Lines 104 to 106: one draw for every publication, in index order.\<close>

definition initialize :: "(nat \<Rightarrow> nat) \<Rightarrow> nat \<Rightarrow> state" where
  "initialize rng n = fold (assign_draw rng) [0..<n] initial_state"

subsection \<open>One battery at one granted time (lines 128 to 153)\<close>

text \<open>Lines 135 and 136: a voltage of zero means that a new EV moves in.\<close>

definition reset_soc :: "(nat \<Rightarrow> nat) \<Rightarrow> real \<Rightarrow> nat \<Rightarrow> state \<Rightarrow> state" where
  "reset_soc rng charging_voltage j s =
     (if charging_voltage = 0 then assign_draw rng j s else s)"

text \<open>
  Lines 139 and 140, with the arguments in the order of the source:
  \<open>R = batt_cell_series * np.interp(socs, effective_R, current_soc[j])\<close>.
\<close>

definition lookup_R :: "state \<Rightarrow> npval \<Rightarrow> error + npval" where
  "lookup_R s soc =
     (case np_interp (Array (socs_arr s)) (Array (effective_R_arr s)) soc of
        Inl e \<Rightarrow> Inl e
      | Inr r \<Rightarrow> Inr (np_map (\<lambda>a. batt_cell_series * a) r))"

text \<open>
  Lines 142 to 147. The voltage is a Python float and \<open>R\<close> a numpy value, so the division
  is numpy's: where \<open>R\<close> is zero it raises nothing and gives inf or NaN (with a warning),
  and the program goes on with that value in \<open>charging_current\<close> and in
  \<open>current_soc[j]\<close>. The numbers of this model are reals, which hold neither; the model
  does not follow the program there and ends with \<open>NonFinite\<close>, the state as it was before
  line 142. Nothing below is stated about that branch.
\<close>

definition charge :: "real \<Rightarrow> real \<Rightarrow> nat \<Rightarrow> npval \<Rightarrow> npval \<Rightarrow> state \<Rightarrow> state \<times> halt option" where
  "charge charging_voltage upd j R soc s =
     (if 0 \<in> set (np_elems R) then (s, Some NonFinite)
      else
        let I = np_map (\<lambda>r. charging_voltage / r) R;
            s1 = s\<lparr>charging_current := Some I\<rparr>;
            added_energy = np_map (\<lambda>i. i * charging_voltage * upd / 3600) I
        in case np_add soc added_energy of
             Inl e \<Rightarrow> (s1, Some (Raise e))
           | Inr soc' \<Rightarrow> (s1\<lparr>current_soc := (current_soc s1)(j \<mapsto> soc')\<rparr>, None))"

text \<open>Line 153: \<open>pubid\<close> has the keys below the number of publications.\<close>

definition publish :: "nat \<Rightarrow> nat \<Rightarrow> state \<Rightarrow> state \<times> halt option" where
  "publish n j s =
     (if j < n then
        (case charging_current s of
           None \<Rightarrow> (s, Some (Raise NameError))
         | Some I \<Rightarrow> (s\<lparr>published := published s @ [(j, I)]\<rparr>, None))
      else (s, Some (Raise KeyError)))"

definition battery_step :: "env \<Rightarrow> nat \<Rightarrow> real \<Rightarrow> nat \<Rightarrow> nat \<Rightarrow> state \<Rightarrow> state \<times> halt option" where
  "battery_step E seed upd k j s =
     (let charging_voltage = input_double E k j;
          s1 = reset_soc (random_stream E seed) charging_voltage j s
      in case current_soc s1 j of
           None \<Rightarrow> (s1, Some (Raise KeyError))
         | Some soc \<Rightarrow>
             (case lookup_R s1 soc of
                Inl e \<Rightarrow> (s1, Some (Raise e))
              | Inr R \<Rightarrow>
                  (case charge charging_voltage upd j R soc s1 of
                     (s2, Some h) \<Rightarrow> (s2, Some h)
                   | (s2, None) \<Rightarrow> publish (pub_count E) j s2)))"

subsection \<open>One granted time (lines 127 to 157)\<close>

fun units_loop :: "env \<Rightarrow> nat \<Rightarrow> real \<Rightarrow> nat \<Rightarrow> nat list \<Rightarrow> state \<Rightarrow> state \<times> halt option" where
  "units_loop E seed upd k [] s = (s, None)"
| "units_loop E seed upd k (j # js) s =
     (case battery_step E seed upd k j s of
        (s', Some h) \<Rightarrow> (s', Some h)
      | (s', None) \<Rightarrow> units_loop E seed upd k js s')"

text \<open>
  Lines 156 and 157: \<open>time_sim.append(t)\<close>, then \<open>current.append(charging_current)\<close>,
  which raises NameError while no battery has assigned the variable.
\<close>

definition collect :: "real \<Rightarrow> state \<Rightarrow> state \<times> halt option" where
  "collect t s =
     (let s1 = s\<lparr>time_sim := time_sim s @ [t]\<rparr>
      in case charging_current s1 of
           None \<Rightarrow> (s1, Some (Raise NameError))
         | Some c \<Rightarrow> (s1\<lparr>current := current s1 @ [c]\<rparr>, None))"

definition battery_tick :: "env \<Rightarrow> nat \<Rightarrow> real \<Rightarrow> nat \<Rightarrow> real \<Rightarrow> state \<Rightarrow> state \<times> halt option" where
  "battery_tick E seed upd k t s =
     (case units_loop E seed upd k [0..<sub_count E] s of
        (s', Some h) \<Rightarrow> (s', Some h)
      | (s', None) \<Rightarrow> collect t s')"

subsection \<open>The stepping loop (lines 114 to 125)\<close>

text \<open>
  \<open>while t < total_interval\<close>: request \<open>t + update_interval\<close>, take the granted time as the
  new \<open>t\<close>, run the body. The loop need not end (the scheduler may never grant the
  horizon), so it runs on fuel: one unit per iteration. The result is the number of
  completed iterations, the last \<open>t\<close>, the last state, and how the loop ended.
\<close>

datatype status = Finished | Halted halt | OutOfFuel

fun stepping_loop ::
  "nat \<Rightarrow> (nat \<Rightarrow> real \<Rightarrow> real) \<Rightarrow> real \<Rightarrow> real \<Rightarrow> (nat \<Rightarrow> real \<Rightarrow> 's \<Rightarrow> 's \<times> halt option)
     \<Rightarrow> nat \<Rightarrow> real \<Rightarrow> 's \<Rightarrow> nat \<times> real \<times> 's \<times> status" where
  "stepping_loop 0 grant horizon upd body k t s =
     (k, t, s, if t < horizon then OutOfFuel else Finished)"
| "stepping_loop (Suc fuel) grant horizon upd body k t s =
     (if t < horizon then
        (let grantedtime = grant k (t + upd)
         in case body k grantedtime s of
              (s', Some h) \<Rightarrow> (k, grantedtime, s', Halted h)
            | (s', None) \<Rightarrow> stepping_loop fuel grant horizon upd body (Suc k) grantedtime s')
      else (k, t, s, Finished))"

text \<open>
  The main block from line 95 on, for a seed, a horizon and a step; the program itself
  runs \<open>main\<close>: seed 1, one week, one minute.
\<close>

definition simulate :: "nat \<Rightarrow> env \<Rightarrow> nat \<Rightarrow> real \<Rightarrow> real \<Rightarrow> nat \<times> real \<times> state \<times> status" where
  "simulate fuel E seed horizon upd =
     stepping_loop fuel (request_time E) horizon upd (battery_tick E seed upd) 0 0
       (initialize (random_stream E seed) (pub_count E))"

definition main :: "nat \<Rightarrow> env \<Rightarrow> nat \<times> real \<times> state \<times> status" where
  "main fuel E = simulate fuel E 1 total_interval update_interval"

subsection \<open>The lookup as section 4.1 of the specification words it\<close>

text \<open>
  The specification's \<open>interpolate\<close> takes the state of charge as the query, the grid of
  states of charge as the nodes and the resistances as the values. It is the same library
  function as in \<open>lookup_R\<close> with the arguments in another order, and it is used below
  only to compare it with what line 139 calls.
\<close>

definition spec_interpolate :: "real \<Rightarrow> error + npval" where
  "spec_interpolate soc_query = np_interp (Scalar soc_query) (Array socs) (Array effective_R)"

subsection \<open>Concrete configurations\<close>

text \<open>
  One battery with one subscription and one publication, a constant voltage on every
  input, a scheduler that grants what is requested, and a generator whose every draw
  reduces to 50, so that the battery starts at a state of charge of 0.5.
\<close>

definition example_env :: "real \<Rightarrow> env" where
  "example_env v =
     \<lparr>sub_count = 1, pub_count = 1, input_double = (\<lambda>k j. v),
      request_time = (\<lambda>k r. r), random_stream = (\<lambda>seed n. 50)\<rparr>"

definition half_charged :: state where
  "half_charged = initial_state\<lparr>current_soc := [0 \<mapsto> Scalar 0.5]\<rparr>"

definition two_units :: state where
  "two_units = initial_state\<lparr>current_soc := [0 \<mapsto> Scalar 0.9, 1 \<mapsto> Scalar 0.3]\<rparr>"

section \<open>Properties\<close>

subsection \<open>The lookup of line 139\<close>

lemma np_interp_scalar_fp: "np_interp x xp (Scalar a) = Inl ValueError"
  by (cases xp) simp_all

lemma lookup_R_scalar: "lookup_R s (Scalar a) = Inl ValueError"
  by (simp add: lookup_R_def np_interp_scalar_fp)

text \<open>
  With the arguments in the specification's order the library function does what
  section 4.1 asks for: it returns the table's resistance at every node, it stays strictly
  between the resistances of two neighbouring nodes strictly between them, and it takes
  the value of the nearest end of the table outside it.
\<close>

lemma spec_interpolate_nodes:
  "map spec_interpolate socs = map (\<lambda>r. Inr (Scalar r)) effective_R"
  by (simp add: spec_interpolate_def socs_def effective_R_def interp1_def)

lemma spec_interpolate_clamp:
  "spec_interpolate (- 1) = spec_interpolate 0 \<and> spec_interpolate 2 = spec_interpolate 1"
  by (simp add: spec_interpolate_def socs_def effective_R_def interp1_def)

lemma interp_from_segment:
  "sorted_wrt (<) xp \<Longrightarrow> length fp = length xp \<Longrightarrow> Suc i < length xp \<Longrightarrow>
   xp ! i \<le> x \<Longrightarrow> x < xp ! Suc i \<Longrightarrow>
   interp_from x xp fp =
     (if x = xp ! i then fp ! i
      else (fp ! Suc i - fp ! i) / (xp ! Suc i - xp ! i) * (x - xp ! i) + fp ! i)"
proof (induction x xp fp arbitrary: i rule: interp_from.induct)
  case (1 x x0 x1 xs y0 y1 ys)
  show ?case
  proof (cases i)
    case 0
    with 1 show ?thesis by simp
  next
    case (Suc i')
    have "x1 \<le> (x1 # xs) ! i'"
    proof (cases i')
      case 0
      then show ?thesis by simp
    next
      case (Suc m)
      have "m < length xs" using "1.prems"(3) \<open>i = Suc i'\<close> Suc by simp
      then have "xs ! m \<in> set xs" by simp
      then have "x1 < xs ! m" using "1.prems"(1) by auto
      then show ?thesis using Suc by simp
    qed
    with "1.prems" Suc have nlt: "\<not> x < x1" by simp
    have "interp_from x (x1 # xs) (y1 # ys) =
       (if x = (x1 # xs) ! i' then (y1 # ys) ! i'
        else ((y1 # ys) ! Suc i' - (y1 # ys) ! i') / ((x1 # xs) ! Suc i' - (x1 # xs) ! i') *
             (x - (x1 # xs) ! i') + (y1 # ys) ! i')"
      using "1.prems" Suc nlt by (intro "1.IH") auto
    with nlt Suc show ?thesis by simp
  qed
qed simp_all

lemma segment_between:
  fixes x :: real
  assumes "x0 < x" "x < x1" "y0 < y1"
  shows "y0 < (y1 - y0) / (x1 - x0) * (x - x0) + y0
       \<and> (y1 - y0) / (x1 - x0) * (x - x0) + y0 < y1"
proof -
  have d: "0 < x1 - x0" using assms by simp
  have "0 < (y1 - y0) / (x1 - x0) * (x - x0)" using assms d by simp
  moreover have "(y1 - y0) / (x1 - x0) * (x - x0) < (y1 - y0) / (x1 - x0) * (x1 - x0)"
    using assms d by (intro mult_strict_left_mono) simp_all
  moreover have "(y1 - y0) / (x1 - x0) * (x1 - x0) = y1 - y0" using d by simp
  ultimately show ?thesis by linarith
qed

lemma interp1_between:
  assumes "sorted_wrt (<) xp" "sorted_wrt (<) fp" "length fp = length xp" "Suc i < length xp"
    "xp ! i < x" "x < xp ! Suc i"
  shows "fp ! i < interp1 x xp fp \<and> interp1 x xp fp < fp ! Suc i"
proof -
  have ne: "xp \<noteq> []" using assms(4) by auto
  have "xp ! Suc i \<le> last xp"
    using assms(1,4) ne
    by (cases "Suc i = length xp - 1")
       (auto simp: last_conv_nth sorted_wrt_nth_less less_imp_le)
  then have a: "\<not> x > last xp" using assms(6) by simp
  have "hd xp \<le> xp ! i"
    using assms(1,4) ne by (cases i) (auto simp: hd_conv_nth sorted_wrt_nth_less less_imp_le)
  then have b: "\<not> x < hd xp" using assms(5) by simp
  have "interp1 x xp fp = (fp ! Suc i - fp ! i) / (xp ! Suc i - xp ! i) * (x - xp ! i) + fp ! i"
    using a b assms interp_from_segment [of xp fp i x] by (simp add: interp1_def)
  moreover have "fp ! i < fp ! Suc i"
    using assms(2,3,4) by (simp add: sorted_wrt_nth_less)
  ultimately show ?thesis using segment_between [OF assms(5,6)] by simp
qed

lemma tables_increasing:
  "sorted_wrt (<) socs \<and> sorted_wrt (<) effective_R
   \<and> length socs = 16 \<and> length effective_R = 16"
  by (simp add: socs_def effective_R_def)

lemma spec_interpolate_between:
  assumes "i < 15" "socs ! i < x" "x < socs ! Suc i"
  shows "\<exists>r. spec_interpolate x = Inr (Scalar r) \<and> effective_R ! i < r \<and> r < effective_R ! Suc i"
  using interp1_between [of socs effective_R i x] tables_increasing assms
  by (auto simp: spec_interpolate_def)

text \<open>The resistance so obtained is positive: it lies between 2 and 21.\<close>

lemma segment_within:
  fixes x :: real
  assumes "x0 \<le> x" "x < x1" "lo \<le> y0" "y0 \<le> hi" "lo \<le> y1" "y1 \<le> hi"
  shows "lo \<le> (y1 - y0) / (x1 - x0) * (x - x0) + y0 \<and> (y1 - y0) / (x1 - x0) * (x - x0) + y0 \<le> hi"
proof -
  define c where "c = (x - x0) / (x1 - x0)"
  have d: "0 < x1 - x0" using assms by simp
  have c0: "0 \<le> c" using assms d by (simp add: c_def)
  have c1: "c \<le> 1" using assms d by (simp add: c_def)
  have eq: "(y1 - y0) / (x1 - x0) * (x - x0) + y0 = c * y1 + (1 - c) * y0"
    by (simp add: c_def algebra_simps add_divide_distrib diff_divide_distrib)
  have "c * lo \<le> c * y1" "(1 - c) * lo \<le> (1 - c) * y0"
    using c0 c1 assms by (simp_all add: mult_left_mono)
  then have "lo \<le> c * y1 + (1 - c) * y0" by (simp add: algebra_simps)
  moreover have "c * y1 \<le> c * hi" "(1 - c) * y0 \<le> (1 - c) * hi"
    using c0 c1 assms by (simp_all add: mult_left_mono)
  then have "c * y1 + (1 - c) * y0 \<le> hi" by (simp add: algebra_simps)
  ultimately show ?thesis using eq by simp
qed

lemma interp_from_within:
  "length fp = length xp \<Longrightarrow> xp \<noteq> [] \<Longrightarrow> hd xp \<le> x \<Longrightarrow> \<forall>y\<in>set fp. lo \<le> y \<and> y \<le> hi \<Longrightarrow>
   lo \<le> interp_from x xp fp \<and> interp_from x xp fp \<le> hi"
proof (induction x xp fp rule: interp_from.induct)
  case (1 x x0 x1 xs y0 y1 ys)
  show ?case
  proof (cases "x < x1")
    case True
    then show ?thesis using "1.prems" segment_within [of x0 x x1 lo y0 hi y1] by simp
  next
    case False
    then show ?thesis using 1 by simp
  qed
qed auto

lemma interp1_within:
  assumes "length fp = length xp" "xp \<noteq> []" "\<forall>y\<in>set fp. lo \<le> y \<and> y \<le> hi"
  shows "lo \<le> interp1 x xp fp \<and> interp1 x xp fp \<le> hi"
proof -
  have "fp \<noteq> []" using assms(1,2) by auto
  then have "hd fp \<in> set fp" "last fp \<in> set fp" by simp_all
  then show ?thesis
    using assms interp_from_within [of fp xp x lo hi] by (auto simp: interp1_def)
qed

lemma spec_interpolate_positive:
  "\<exists>r. spec_interpolate x = Inr (Scalar r) \<and> 2 \<le> r \<and> r \<le> 21"
  using interp1_within [of effective_R socs 2 21 x]
  by (simp add: spec_interpolate_def socs_def effective_R_def)

text \<open>
  C1. The claim: at every breakpoint the interpolation returns the table's resistance,
  and between two breakpoints a value between their resistances. The lemmas above show
  that this is what the library function does when the state of charge is the query.
  Line 139 passes the grid of states of charge as the query, the resistances as the nodes
  and the battery's state of charge, a scalar, as the values: at the breakpoint 0.6, where
  the table holds 2.7556, the call raises ValueError.
\<close>

theorem lookup_at_breakpoint_raises:
  "socs ! 9 = 0.6 \<and> effective_R ! 9 = 2.7556
   \<and> lookup_R initial_state (Scalar (socs ! 9)) = Inl ValueError
   \<and> spec_interpolate (socs ! 9) = Inr (Scalar (effective_R ! 9))"
  by (simp add: lookup_R_scalar spec_interpolate_def socs_def effective_R_def interp1_def)

subsection \<open>The reset at a voltage of zero\<close>

lemma battery_step_zero:
  assumes "input_double E k j = 0"
  shows "battery_step E seed upd k j s =
           (assign_draw (random_stream E seed) j s, Some (Raise ValueError))"
  using assms by (simp add: battery_step_def reset_soc_def assign_draw_def lookup_R_scalar)

text \<open>
  C4. When the voltage read for battery \<open>j\<close> is zero, the step replaces the state of
  charge of \<open>j\<close> by the next draw of the generator divided by 100, a value in
  \<open>[0, 0.80)\<close> that depends on the generator and its position only, not on the state of
  charge before; the generator advances by one draw. The replacement is that of lines 135
  and 136, before line 139, and it is the state of charge that the step leaves behind,
  for every update interval.
\<close>

theorem zero_voltage_reset:
  assumes "input_double E k j = 0"
  shows "current_soc (fst (battery_step E seed upd k j s)) j =
           Some (Scalar (real (randint (random_stream E seed) (rng_pos s) 0 80) / 100))
         \<and> 0 \<le> real (randint (random_stream E seed) (rng_pos s) 0 80) / 100
         \<and> real (randint (random_stream E seed) (rng_pos s) 0 80) / 100 < 0.80
         \<and> rng_pos (fst (battery_step E seed upd k j s)) = Suc (rng_pos s)
         \<and> current_soc (reset_soc (random_stream E seed) (input_double E k j) j s) j =
             current_soc (fst (battery_step E seed upd k j s)) j"
  using assms
  by (simp add: battery_step_zero assign_draw_def draw_soc_def reset_soc_def randint_def)

theorem zero_voltage_reset_witness:
  "input_double (example_env 0) 3 0 = 0
   \<and> current_soc two_units 0 = Some (Scalar 0.9)
   \<and> current_soc (fst (battery_step (example_env 0) 1 update_interval 3 0 two_units)) 0 =
       Some (Scalar 0.5)
   \<and> current_soc (fst (battery_step (example_env 0) 1 update_interval 3 0 half_charged)) 0 =
       Some (Scalar 0.5)"
  using zero_voltage_reset [of "example_env 0" 3 0 1 update_interval two_units]
    zero_voltage_reset [of "example_env 0" 3 0 1 update_interval half_charged]
  by (simp add: example_env_def two_units_def half_charged_def initial_state_def randint_def)

subsection \<open>The frame of a step\<close>

text \<open>
  C8. A step for battery \<open>j\<close> leaves the state of charge of every other battery and the
  two arrays of the table as they were, however the step ends.
\<close>

theorem step_frame:
  "(\<forall>i. i \<noteq> j \<longrightarrow> current_soc (fst (battery_step E seed upd k j s)) i = current_soc s i)
   \<and> socs_arr (fst (battery_step E seed upd k j s)) = socs_arr s
   \<and> effective_R_arr (fst (battery_step E seed upd k j s)) = effective_R_arr s"
  by (simp add: battery_step_def Let_def reset_soc_def assign_draw_def publish_def charge_def
      split: option.splits sum.splits prod.splits if_splits)

theorem step_frame_witness:
  "current_soc (fst (battery_step (example_env 0) 1 update_interval 0 0 two_units)) 1 =
     current_soc two_units 1
   \<and> current_soc (fst (battery_step (example_env 0) 1 update_interval 0 0 two_units)) 0 \<noteq>
     current_soc two_units 0
   \<and> socs_arr (fst (battery_step (example_env 0) 1 update_interval 0 0 two_units)) = socs"
proof -
  have "current_soc (fst (battery_step (example_env 0) 1 update_interval 0 0 two_units)) 0 \<noteq>
     current_soc two_units 0"
    by (simp add: battery_step_zero example_env_def assign_draw_def draw_soc_def randint_def
        two_units_def)
  moreover have "socs_arr two_units = socs"
    by (simp add: two_units_def initial_state_def)
  ultimately show ?thesis
    using step_frame [of 0 "example_env 0" 1 update_interval 0 two_units] by simp
qed

subsection \<open>The current of a step\<close>

lemma initialize_example:
  "initialize (random_stream (example_env v) seed) (pub_count (example_env v)) =
     half_charged\<lparr>rng_pos := 1\<rparr>"
  by (simp add: initialize_def example_env_def assign_draw_def draw_soc_def randint_def
      initial_state_def half_charged_def)

lemma battery_step_scalar:
  assumes "current_soc s j = Some (Scalar a)"
  shows "battery_step E seed upd k j s =
           (reset_soc (random_stream E seed) (input_double E k j) j s, Some (Raise ValueError))"
proof (cases "input_double E k j = 0")
  case True
  then show ?thesis by (simp add: battery_step_zero reset_soc_def)
next
  case False
  with assms show ?thesis by (simp add: battery_step_def reset_soc_def lookup_R_scalar)
qed

text \<open>
  C2. The claim: for a battery at a state of charge of 0.5 that reads 400 V, with 96
  cells in series, an update interval of 60 and a table resistance of 2.7556, the step
  returns the current \<open>400 / (2.7556 * 96)\<close> and adds \<open>current * 400 * 60 / 3600\<close> to the
  state of charge. In the source this battery is the one that a draw of 50 initializes.
  Its step ends at line 139 with ValueError: no current is assigned, none is published,
  and the state of charge stays 0.5.
\<close>

theorem energy_example_step_raises:
  "initialize (random_stream (example_env 400) 1) (pub_count (example_env 400)) =
     half_charged\<lparr>rng_pos := 1\<rparr>
   \<and> current_soc (half_charged\<lparr>rng_pos := 1\<rparr>) 0 = Some (Scalar 0.5)
   \<and> input_double (example_env 400) 0 0 = 400
   \<and> battery_step (example_env 400) 1 update_interval 0 0 (half_charged\<lparr>rng_pos := 1\<rparr>) =
       (half_charged\<lparr>rng_pos := 1\<rparr>, Some (Raise ValueError))
   \<and> charging_current (half_charged\<lparr>rng_pos := 1\<rparr>) = None
   \<and> published (half_charged\<lparr>rng_pos := 1\<rparr>) = []"
proof -
  have "battery_step (example_env 400) 1 update_interval 0 0 (half_charged\<lparr>rng_pos := 1\<rparr>) =
       (half_charged\<lparr>rng_pos := 1\<rparr>, Some (Raise ValueError))"
    by (simp add: battery_step_def reset_soc_def lookup_R_scalar example_env_def half_charged_def)
  moreover have "input_double (example_env 400) 0 0 = 400"
    by (simp add: example_env_def)
  moreover have "current_soc (half_charged\<lparr>rng_pos := 1\<rparr>) 0 = Some (Scalar 0.5)"
    "charging_current (half_charged\<lparr>rng_pos := 1\<rparr>) = None"
    "published (half_charged\<lparr>rng_pos := 1\<rparr>) = []"
    by (simp_all add: half_charged_def initial_state_def)
  ultimately show ?thesis
    using initialize_example [of 400 1] by simp
qed

text \<open>
  C9. The claim: for a voltage that is not negative and a positive resistance the step
  returns a current that is not negative. The step of the source returns no current at
  all: for every battery whose state of charge is a scalar, which is every battery of
  every run, and whatever the voltage, the step ends with the ValueError of line 139,
  \<open>charging_current\<close> is not assigned and nothing is published.
\<close>

theorem step_binds_no_current:
  assumes "current_soc s j = Some (Scalar a)"
  shows "snd (battery_step E seed upd k j s) = Some (Raise ValueError)
       \<and> charging_current (fst (battery_step E seed upd k j s)) = charging_current s
       \<and> published (fst (battery_step E seed upd k j s)) = published s"
  using assms by (simp add: battery_step_scalar reset_soc_def assign_draw_def)

theorem step_binds_no_current_witness:
  "current_soc (half_charged\<lparr>rng_pos := 1\<rparr>) 0 = Some (Scalar 0.5)
   \<and> input_double (example_env 240) 0 0 = 240
   \<and> snd (battery_step (example_env 240) 1 update_interval 0 0 (half_charged\<lparr>rng_pos := 1\<rparr>)) =
       Some (Raise ValueError)
   \<and> charging_current
       (fst (battery_step (example_env 240) 1 update_interval 0 0 (half_charged\<lparr>rng_pos := 1\<rparr>))) =
       None
   \<and> published
       (fst (battery_step (example_env 240) 1 update_interval 0 0 (half_charged\<lparr>rng_pos := 1\<rparr>))) =
       []"
proof -
  have soc: "current_soc (half_charged\<lparr>rng_pos := 1\<rparr>) 0 = Some (Scalar 0.5)"
    by (simp add: half_charged_def)
  show ?thesis
    using soc step_binds_no_current [OF soc, of "example_env 240" 1 update_interval 0]
    by (simp add: half_charged_def initial_state_def example_env_def)
qed

text \<open>
  Lines 142 to 147 themselves, which no step of a run reaches, are the law of the
  specification for a scalar resistance other than zero: the current is \<open>V / R\<close>, and
  \<open>current * V * update_interval / 3600\<close> is added to the state of charge.
\<close>

lemma charge_scalar:
  "R \<noteq> 0 \<Longrightarrow>
     charge v upd j (Scalar R) (Scalar soc) s =
       (s\<lparr>charging_current := Some (Scalar (v / R)),
          current_soc := (current_soc s)(j \<mapsto> Scalar (soc + v / R * v * upd / 3600))\<rparr>, None)"
  by (simp add: charge_def Let_def)

subsection \<open>The values that the draws give\<close>

lemma randint_80: "randint rng n 0 80 < 80"
  by (simp add: randint_def)

lemma fold_assign_draw:
  "rng_pos (fold (assign_draw rng) [0..<n] s) = rng_pos s + n \<and>
   (\<forall>i<n. current_soc (fold (assign_draw rng) [0..<n] s) i =
       Some (Scalar (real (randint rng (rng_pos s + i) 0 80) / 100)))"
proof (induction n)
  case 0
  then show ?case by simp
next
  case (Suc n)
  then show ?case
    by (auto simp: assign_draw_def draw_soc_def less_Suc_eq)
qed

text \<open>
  C10. Every state of charge that the initialization (lines 104 to 106) or the reset at
  a voltage of zero (lines 135 and 136) assigns is \<open>d / 100\<close> for an integer \<open>d\<close> with
  \<open>0 \<le> d < 80\<close>: one of the eighty values 0.00, 0.01, ..., 0.79.
\<close>

theorem soc_draws_are_hundredths:
  "(\<forall>i<n. \<exists>d<80. current_soc (initialize rng n) i = Some (Scalar (real d / 100)))
   \<and> (\<exists>d<80. current_soc (reset_soc rng 0 j s) j = Some (Scalar (real d / 100)))"
proof
  show "\<forall>i<n. \<exists>d<80. current_soc (initialize rng n) i = Some (Scalar (real d / 100))"
    using fold_assign_draw [of rng n initial_state] randint_80
    by (auto simp: initialize_def)
  show "\<exists>d<80. current_soc (reset_soc rng 0 j s) j = Some (Scalar (real d / 100))"
    using randint_80 [of rng "rng_pos s"]
    by (auto simp: reset_soc_def assign_draw_def draw_soc_def)
qed

theorem soc_draws_are_hundredths_witness:
  "(\<exists>d<80. current_soc (initialize (\<lambda>n. 100 * n + 7) 2) 1 = Some (Scalar (real d / 100)))
   \<and> current_soc (initialize (\<lambda>n. 100 * n + 7) 2) 1 = Some (Scalar 0.27)
   \<and> (\<exists>d<80. current_soc (reset_soc (\<lambda>n. 100 * n + 7) 0 0 two_units) 0 =
         Some (Scalar (real d / 100)))
   \<and> current_soc (reset_soc (\<lambda>n. 100 * n + 7) 0 0 two_units) 0 = Some (Scalar 0.07)"
proof -
  have "current_soc (initialize (\<lambda>n. 100 * n + 7) 2) 1 = Some (Scalar 0.27)"
    by (simp add: initialize_def numeral_2_eq_2 assign_draw_def draw_soc_def randint_def
        initial_state_def)
  moreover have "current_soc (reset_soc (\<lambda>n. 100 * n + 7) 0 0 two_units) 0 = Some (Scalar 0.07)"
    by (simp add: reset_soc_def assign_draw_def draw_soc_def randint_def two_units_def
        initial_state_def)
  ultimately show ?thesis
    using soc_draws_are_hundredths [of 2 "\<lambda>n. 100 * n + 7" 0 two_units] by simp
qed

subsection \<open>The stepping loop\<close>

lemma loop_at_horizon:
  "horizon \<le> t \<Longrightarrow> stepping_loop fuel grant horizon upd body k t s = (k, t, s, Finished)"
  by (cases fuel) simp_all

text \<open>
  The control of the loop is that of the specification: when the scheduler grants every
  requested time and no iteration stops the run, the loop started \<open>n\<close> steps before the
  horizon makes exactly \<open>n\<close> iterations and ends at the horizon.
\<close>

lemma loop_exact:
  assumes "\<forall>k t s. snd (body k t s) = None" "0 < upd"
  shows "n \<le> fuel \<Longrightarrow> horizon \<le> t + real n * upd \<Longrightarrow>
    (0 < n \<longrightarrow> t + real (n - 1) * upd < horizon) \<Longrightarrow>
    \<exists>s'. stepping_loop fuel (\<lambda>k r. r) horizon upd body k t s =
            (k + n, t + real n * upd, s', Finished)"
proof (induction n arbitrary: fuel k t s)
  case 0
  then show ?case by (simp add: loop_at_horizon)
next
  case (Suc n)
  then obtain f where f: "fuel = Suc f" by (cases fuel) auto
  have "0 \<le> real n * upd" using assms(2) by simp
  with Suc.prems have lt: "t < horizon" by simp
  obtain s1 where b: "body k (t + upd) s = (s1, None)"
    using assms(1) by (metis prod.collapse)
  have "\<exists>s'. stepping_loop f (\<lambda>k r. r) horizon upd body (Suc k) (t + upd) s1 =
      (Suc k + n, (t + upd) + real n * upd, s', Finished)"
  proof (rule Suc.IH)
    show "n \<le> f" using Suc.prems f by simp
    show "horizon \<le> t + upd + real n * upd" using Suc.prems by (simp add: algebra_simps)
    show "0 < n \<longrightarrow> t + upd + real (n - 1) * upd < horizon"
    proof
      assume "0 < n"
      then have "real (n - 1) + 1 = real n" by simp
      then have "t + upd + real (n - 1) * upd = t + real n * upd"
        by (metis add.commute add.left_commute distrib_right mult_1)
      then show "t + upd + real (n - 1) * upd < horizon" using Suc.prems by simp
    qed
  qed
  then show ?case using f lt b by (simp add: algebra_simps)
qed

lemma loop_sixty_ticks:
  assumes "\<forall>k t s. snd (body k t s) = None" "60 \<le> fuel"
  shows "\<exists>s'. stepping_loop fuel (\<lambda>k r. r) 3600 60 body 0 0 s = (60, 3600, s', Finished)"
  using loop_exact [of body 60 60 fuel 3600 0 0 s] assms by simp

text \<open>
  The run of the source, however, does not get through its first iteration, whatever the
  configuration, the inputs, the scheduler and the generator are: with a battery to step
  the first step raises (ValueError from line 139, or KeyError when the battery has no
  publication and its voltage is not zero), and without any battery line 157 raises
  NameError.
\<close>

lemma fold_assign_draw_rest:
  "charging_current (fold (assign_draw rng) [0..<n] s) = charging_current s \<and>
   (\<forall>i\<ge>n. current_soc (fold (assign_draw rng) [0..<n] s) i = current_soc s i)"
  by (induction n) (auto simp: assign_draw_def)

lemma initialize_scalars:
  "current_soc (initialize rng n) i = Some v \<Longrightarrow> \<exists>a. v = Scalar a"
proof (cases "i < n")
  case True
  assume "current_soc (initialize rng n) i = Some v"
  then show ?thesis
    using True fold_assign_draw [of rng n initial_state] by (auto simp: initialize_def)
next
  case False
  assume "current_soc (initialize rng n) i = Some v"
  then show ?thesis
    using False fold_assign_draw_rest [of rng n initial_state]
    by (simp add: initialize_def initial_state_def)
qed

lemma battery_step_scalar_raises:
  assumes "\<And>v. current_soc s j = Some v \<Longrightarrow> \<exists>a. v = Scalar a"
  shows "\<exists>e. snd (battery_step E seed upd k j s) = Some (Raise e)"
proof (cases "input_double E k j = 0")
  case True
  then show ?thesis by (simp add: battery_step_zero)
next
  case False
  show ?thesis
  proof (cases "current_soc s j")
    case None
    with False show ?thesis by (simp add: battery_step_def reset_soc_def)
  next
    case (Some v)
    then obtain a where "v = Scalar a" using assms by blast
    with Some False show ?thesis
      by (simp add: battery_step_def reset_soc_def lookup_R_scalar)
  qed
qed

lemma battery_tick_initial_raises:
  "\<exists>e. snd (battery_tick E seed upd k t (initialize rng n)) = Some (Raise e)"
proof (cases "sub_count E")
  case 0
  have "charging_current (initialize rng n) = None"
    using fold_assign_draw_rest [of rng n initial_state]
    by (simp add: initialize_def initial_state_def)
  with 0 show ?thesis by (simp add: battery_tick_def collect_def)
next
  case (Suc m)
  obtain e where e: "snd (battery_step E seed upd k 0 (initialize rng n)) = Some (Raise e)"
    using battery_step_scalar_raises [of "initialize rng n" 0 E seed upd k] initialize_scalars
    by blast
  have "[0..<sub_count E] = 0 # [1..<sub_count E]"
    using Suc by (simp add: upt_conv_Cons)
  with e show ?thesis
    by (cases "battery_step E seed upd k 0 (initialize rng n)")
       (auto simp: battery_tick_def)
qed

lemma first_iteration_raises:
  assumes "0 < horizon"
  shows "\<exists>e s'. simulate (Suc fuel) E seed horizon upd =
           (0, request_time E 0 upd, s', Halted (Raise e))"
proof -
  obtain e where "snd (battery_tick E seed upd 0 (request_time E 0 upd)
      (initialize (random_stream E seed) (pub_count E))) = Some (Raise e)"
    using battery_tick_initial_raises by blast
  then show ?thesis
    using assms
    by (cases "battery_tick E seed upd 0 (request_time E 0 upd)
          (initialize (random_stream E seed) (pub_count E))")
       (auto simp: simulate_def)
qed

text \<open>
  Every state of charge that a run holds is one of the eighty values that the draws give,
  so every query that a run makes lies within the table, between its first and its last
  node: no run asks for a resistance outside the table.
\<close>

lemma initialize_hundredths:
  assumes "current_soc (initialize rng n) i = Some v"
  shows "\<exists>d<80. v = Scalar (real d / 100)"
proof (cases "i < n")
  case True
  then show ?thesis
    using assms fold_assign_draw [of rng n initial_state] randint_80 [of rng]
    by (auto simp: initialize_def)
next
  case False
  then show ?thesis
    using assms fold_assign_draw_rest [of rng n initial_state]
    by (simp add: initialize_def initial_state_def)
qed

lemma reset_soc_hundredths:
  assumes "\<And>i v. current_soc s i = Some v \<Longrightarrow> \<exists>d<80. v = Scalar (real d / 100)"
    and "current_soc (reset_soc rng x j s) i = Some v"
  shows "\<exists>d<80. v = Scalar (real d / 100)"
proof (cases "x = 0 \<and> i = j")
  case True
  then show ?thesis
    using assms(2) randint_80 [of rng "rng_pos s"]
    by (auto simp: reset_soc_def assign_draw_def draw_soc_def)
next
  case False
  then have "current_soc (reset_soc rng x j s) i = current_soc s i"
    by (auto simp: reset_soc_def assign_draw_def)
  then show ?thesis using assms by simp
qed

lemma battery_step_state:
  assumes "\<And>v. current_soc s j = Some v \<Longrightarrow> \<exists>a. v = Scalar a"
  shows "fst (battery_step E seed upd k j s) =
           reset_soc (random_stream E seed) (input_double E k j) j s"
proof (cases "current_soc s j")
  case None
  show ?thesis
  proof (cases "input_double E k j = 0")
    case True
    then show ?thesis by (simp add: battery_step_zero reset_soc_def)
  next
    case False
    with None show ?thesis by (simp add: battery_step_def reset_soc_def)
  qed
next
  case (Some v)
  then obtain a where "current_soc s j = Some (Scalar a)" using assms by blast
  then show ?thesis by (simp add: battery_step_scalar)
qed

lemma battery_tick_initial_socs:
  assumes "current_soc (fst (battery_tick E seed upd k t (initialize rng n))) i = Some v"
  shows "\<exists>d<80. v = Scalar (real d / 100)"
proof (cases "sub_count E")
  case 0
  then have "current_soc (fst (battery_tick E seed upd k t (initialize rng n))) =
             current_soc (initialize rng n)"
    by (simp add: battery_tick_def collect_def Let_def split: option.splits)
  then show ?thesis using assms initialize_hundredths by simp
next
  case (Suc m)
  have up: "[0..<sub_count E] = 0 # [1..<sub_count E]"
    using Suc by (simp add: upt_conv_Cons)
  obtain e where e: "snd (battery_step E seed upd k 0 (initialize rng n)) = Some (Raise e)"
    using battery_step_scalar_raises [of "initialize rng n" 0 E seed upd k] initialize_scalars
    by blast
  have st: "fst (battery_step E seed upd k 0 (initialize rng n)) =
            reset_soc (random_stream E seed) (input_double E k 0) 0 (initialize rng n)"
    using initialize_scalars by (intro battery_step_state) blast
  have "fst (battery_tick E seed upd k t (initialize rng n)) =
        fst (battery_step E seed upd k 0 (initialize rng n))"
    using e up by (cases "battery_step E seed upd k 0 (initialize rng n)") (simp add: battery_tick_def)
  then show ?thesis
    using assms st reset_soc_hundredths [of "initialize rng n" "random_stream E seed"
        "input_double E k 0" 0 i v] initialize_hundredths [of rng n]
    by auto
qed

lemma run_socs_hundredths:
  assumes "current_soc (fst (snd (snd (simulate fuel E seed horizon upd)))) i = Some v"
  shows "\<exists>d<80. v = Scalar (real d / 100)"
proof (cases "0 < horizon \<and> fuel \<noteq> 0")
  case False
  then have "fst (snd (snd (simulate fuel E seed horizon upd))) =
             initialize (random_stream E seed) (pub_count E)"
    by (cases fuel) (auto simp: simulate_def)
  then show ?thesis using assms initialize_hundredths by simp
next
  case True
  then obtain f where f: "fuel = Suc f" by (cases fuel) auto
  let ?s0 = "initialize (random_stream E seed) (pub_count E)"
  let ?r = "battery_tick E seed upd 0 (request_time E 0 upd) ?s0"
  obtain e where "snd ?r = Some (Raise e)"
    using battery_tick_initial_raises by blast
  then have "fst (snd (snd (simulate fuel E seed horizon upd))) = fst ?r"
    using True f by (cases ?r) (auto simp: simulate_def)
  then show ?thesis using assms battery_tick_initial_socs by simp
qed

lemma run_queries_in_table_range:
  assumes "current_soc (fst (snd (snd (simulate fuel E seed horizon upd)))) i = Some v"
  shows "\<exists>a. v = Scalar a \<and> hd socs \<le> a \<and> a \<le> last socs"
proof -
  obtain d where d: "d < 80" "v = Scalar (real d / 100)"
    using run_socs_hundredths [OF assms] by blast
  have "hd socs \<le> real d / 100 \<and> real d / 100 \<le> last socs"
    using d(1) by (simp add: socs_def)
  with d(2) show ?thesis by blast
qed

text \<open>
  C6. The claim: with a step of 60 and a horizon of 3600 and a scheduler that grants
  what is requested, the loop makes exactly 60 iterations. With one battery, started at
  0.5 and held at 400 V, the run of the source ends in its first iteration: the time 60
  is granted, the call of line 139 raises ValueError, and no iteration completes. The
  same holds for the horizon of one week that the program itself runs with.
\<close>

theorem horizon_run_aborts:
  "simulate (Suc fuel) (example_env 400) 1 3600 60 =
     (0, 60, half_charged\<lparr>rng_pos := 1\<rparr>, Halted (Raise ValueError))
   \<and> main (Suc fuel) (example_env 400) =
     (0, 60, half_charged\<lparr>rng_pos := 1\<rparr>, Halted (Raise ValueError))"
  unfolding main_def simulate_def initialize_example
  by (simp add: battery_tick_def battery_step_def reset_soc_def lookup_R_scalar example_env_def
      half_charged_def total_interval_def update_interval_def)

end
